theory Spec2Isabelle
  imports Complex_Main "HOL-Library.Product_Lexorder"
begin

section \<open>Cells: binary64 floating-point numbers\<close>

text \<open>
  Every cell of the price table is a numpy \<open>float64\<close>. A cell is a NaN (pandas' marker
  for a missing value), an infinity, a negative zero, or a finite number, kept as the
  rational it denotes (\<open>Fin 0\<close> is \<open>+0.0\<close>). Arithmetic computes the exact rational
  result and rounds it to the nearest binary64 number, ties to even, as the hardware
  does; numpy does not raise on a division by zero, it returns an infinity or a NaN.
\<close>

datatype float64 = NaN | PInf | NInf | NZero | Fin rat

definition mk_inf :: "bool \<Rightarrow> float64" where
  "mk_inf neg = (if neg then NInf else PInf)"

definition mk_zero :: "bool \<Rightarrow> float64" where
  "mk_zero neg = (if neg then NZero else Fin 0)"

fun is_inf :: "float64 \<Rightarrow> bool" where
  "is_inf PInf = True"
| "is_inf NInf = True"
| "is_inf _ = False"

fun is_zero :: "float64 \<Rightarrow> bool" where
  "is_zero NZero = True"
| "is_zero (Fin q) = (q = 0)"
| "is_zero _ = False"

fun sign_bit :: "float64 \<Rightarrow> bool" where
  "sign_bit NInf = True"
| "sign_bit NZero = True"
| "sign_bit (Fin q) = (q < 0)"
| "sign_bit _ = False"

fun valof :: "float64 \<Rightarrow> rat" where
  "valof (Fin q) = q"
| "valof _ = 0"

text \<open>The number of binary digits of a positive integer (Python's \<open>int.bit_length\<close>).\<close>

function bit_length :: "int \<Rightarrow> nat" where
  "bit_length n = (if n \<le> 0 then 0 else Suc (bit_length (n div 2)))"
  by pat_completeness auto
termination
  by (relation "measure nat") auto

declare bit_length.simps [simp del]

definition pow2 :: "int \<Rightarrow> rat" where
  "pow2 e = (if 0 \<le> e then 2 ^ nat e else 1 / 2 ^ nat (- e))"

text \<open>\<open>floor_log2 a\<close> is the exponent \<open>e\<close> with \<open>2^e \<le> a < 2^(e+1)\<close>, for \<open>a > 0\<close>.\<close>

definition floor_log2 :: "rat \<Rightarrow> int" where
  "floor_log2 a =
     (if 1 \<le> a then int (bit_length \<lfloor>a\<rfloor>) - 1
      else - int (bit_length (\<lceil>1 / a\<rceil> - 1)))"

definition round_half_even :: "rat \<Rightarrow> int" where
  "round_half_even x =
     (let f = \<lfloor>x\<rfloor>; d = x - of_int f
      in if d < 1 / 2 then f
         else if 1 / 2 < d then f + 1
         else if even f then f else f + 1)"

text \<open>
  Rounding of an exact result to binary64: 53 significant bits, the exponent of a normal
  number between \<open>-1022\<close> and \<open>1023\<close>, gradual underflow below, overflow to an infinity.
\<close>

definition fl :: "rat \<Rightarrow> float64" where
  "fl q =
     (if q = 0 then Fin 0
      else
        let a = \<bar>q\<bar>;
            e = max (floor_log2 a) (- 1022);
            u = pow2 (e - 52);
            m = round_half_even (a / u);
            r = of_int m * u
        in if 1024 \<le> e \<or> (e = 1023 \<and> m = 2 ^ 53) then mk_inf (q < 0)
           else if m = 0 then mk_zero (q < 0)
           else Fin (if q < 0 then - r else r))"

definition fdiv :: "float64 \<Rightarrow> float64 \<Rightarrow> float64" where
  "fdiv a b =
     (if a = NaN \<or> b = NaN \<or> (is_zero a \<and> is_zero b) \<or> (is_inf a \<and> is_inf b) then NaN
      else if is_inf a \<or> is_zero b then mk_inf (sign_bit a \<noteq> sign_bit b)
      else if is_inf b \<or> is_zero a then mk_zero (sign_bit a \<noteq> sign_bit b)
      else fl (valof a / valof b))"

definition fsub :: "float64 \<Rightarrow> float64 \<Rightarrow> float64" where
  "fsub a b =
     (if a = NaN \<or> b = NaN \<or> (is_inf a \<and> is_inf b \<and> sign_bit a = sign_bit b) then NaN
      else if is_inf a then a
      else if is_inf b then mk_inf (\<not> sign_bit b)
      else if valof a - valof b = 0 then mk_zero (a = NZero \<and> b = Fin 0)
      else fl (valof a - valof b))"

definition fmul :: "float64 \<Rightarrow> float64 \<Rightarrow> float64" where
  "fmul a b =
     (if a = NaN \<or> b = NaN \<or> (is_zero a \<and> is_inf b) \<or> (is_inf a \<and> is_zero b) then NaN
      else if is_inf a \<or> is_inf b then mk_inf (sign_bit a \<noteq> sign_bit b)
      else if is_zero a \<or> is_zero b then mk_zero (sign_bit a \<noteq> sign_bit b)
      else fl (valof a * valof b))"

text \<open>pandas' \<open>isna\<close> on a float cell: only a NaN is missing, an infinity is not.\<close>

definition isna :: "float64 \<Rightarrow> bool" where
  "isna x = (x = NaN)"


section \<open>The price table\<close>

text \<open>
  A row label of the table is a daily timestamp, kept as its calendar date
  (year, month, day); dates are compared lexicographically. A \<open>DataFrame\<close> of closing
  prices is its index and its columns in order, each a label with one cell per row.
\<close>

type_synonym date = "nat \<times> nat \<times> nat"

record frame =
  index :: "date list"
  columns :: "(string \<times> float64 list) list"

definition wf_frame :: "frame \<Rightarrow> bool" where
  "wf_frame df = list_all (\<lambda>(c, xs). length xs = length (index df)) (columns df)"

subsection \<open>Data preparation (line 35 of main.py)\<close>

text \<open>
  \<open>data = data.ffill().dropna(axis=1, how="all").sort_index()\<close>.
  \<open>ffill\<close> walks every column in row order and replaces a missing cell by the last
  value seen; before the first value there is nothing to propagate.
\<close>

fun ffill_from :: "float64 \<Rightarrow> float64 list \<Rightarrow> float64 list" where
  "ffill_from prev [] = []"
| "ffill_from prev (x # xs) =
     (if isna x then prev # ffill_from prev xs else x # ffill_from x xs)"

definition ffill :: "frame \<Rightarrow> frame" where
  "ffill df = df\<lparr>columns := map (\<lambda>(c, xs). (c, ffill_from NaN xs)) (columns df)\<rparr>"

definition dropna_all :: "frame \<Rightarrow> frame" where
  "dropna_all df =
     df\<lparr>columns := filter (\<lambda>(c, xs). list_ex (\<lambda>x. \<not> isna x) xs) (columns df)\<rparr>"

text \<open>
  \<open>sort_index\<close> reorders the rows by ascending label. Rows with equal labels keep
  their order here; pandas' default sort does not promise that, and the order of rows
  with distinct labels does not depend on it.
\<close>

definition sort_index :: "frame \<Rightarrow> frame" where
  "sort_index df =
     \<lparr>index = sort (index df),
      columns = map (\<lambda>(c, xs). (c, map snd (sort_key fst (zip (index df) xs)))) (columns df)\<rparr>"

definition prepare :: "frame \<Rightarrow> frame" where
  "prepare raw = sort_index (dropna_all (ffill raw))"

text \<open>
  The module's globals: \<open>data\<close> and \<open>date_list = data.index\<close>. Whatever else the
  process holds (the Dash application, its layout, earlier figures) is the extension of
  the record.
\<close>

record globals =
  data :: frame
  date_list :: "date list"

definition startup :: "frame \<Rightarrow> globals" where
  "startup raw = \<lparr>data = prepare raw, date_list = index (prepare raw)\<rparr>"

subsection \<open>The callback \<open>update_graph\<close>\<close>

datatype py_error = ValueError | IndexError

text \<open>Indexing with a Python integer: a negative index counts from the end.\<close>

definition getitem :: "'a list \<Rightarrow> int \<Rightarrow> py_error + 'a" where
  "getitem xs i =
     (if 0 \<le> i \<and> i < int (length xs) then Inr (xs ! nat i)
      else if i < 0 \<and> - i \<le> int (length xs) then Inr (xs ! nat (int (length xs) + i))
      else Inl IndexError)"

text \<open>
  \<open>data.loc[start_date:end_date]\<close> on the sorted index that \<open>sort_index\<close> leaves:
  the rows whose label lies between the two labels, both included.
\<close>

definition in_range :: "date \<Rightarrow> date \<Rightarrow> date \<Rightarrow> bool" where
  "in_range lo hi d = (lo \<le> d \<and> d \<le> hi)"

definition loc_slice :: "date \<Rightarrow> date \<Rightarrow> frame \<Rightarrow> frame" where
  "loc_slice lo hi df =
     \<lparr>index = filter (in_range lo hi) (index df),
      columns = map (\<lambda>(c, xs). (c, map snd (filter (\<lambda>(d, x). in_range lo hi d) (zip (index df) xs))))
                  (columns df)\<rparr>"

text \<open>\<open>filtered.iloc[0]\<close>: the first row, one value per column; no row, no first row.\<close>

definition iloc0 :: "frame \<Rightarrow> py_error + float64 list" where
  "iloc0 df = (if index df = [] then Inl IndexError else Inr (map (\<lambda>(c, xs). hd xs) (columns df)))"

text \<open>
  \<open>(filtered / baseline - 1) * 100\<close>: the row \<open>baseline\<close> carries the columns' own
  labels, so every column is divided by its own entry; the scalars apply to every cell.
\<close>

definition frame_div :: "frame \<Rightarrow> float64 list \<Rightarrow> frame" where
  "frame_div df row =
     df\<lparr>columns := map (\<lambda>((c, xs), b). (c, map (\<lambda>v. fdiv v b) xs)) (zip (columns df) row)\<rparr>"

definition frame_sub :: "frame \<Rightarrow> float64 \<Rightarrow> frame" where
  "frame_sub df k = df\<lparr>columns := map (\<lambda>(c, xs). (c, map (\<lambda>v. fsub v k) xs)) (columns df)\<rparr>"

definition frame_mul :: "frame \<Rightarrow> float64 \<Rightarrow> frame" where
  "frame_mul df k = df\<lparr>columns := map (\<lambda>(c, xs). (c, map (\<lambda>v. fmul v k) xs)) (columns df)\<rparr>"

text \<open>
  \<open>reset_index().melt(id_vars='Date', var_name='Asset', value_name='Performance (%)')\<close>:
  one row (Date, Asset, Performance) per cell, column after column.
\<close>

type_synonym long_row = "date \<times> string \<times> float64"

definition melt :: "frame \<Rightarrow> long_row list" where
  "melt df = concat (map (\<lambda>(c, xs). map (\<lambda>(d, v). (d, c, v)) (zip (index df) xs)) (columns df))"

text \<open>\<open>strftime("%Y-%m-%d")\<close>, which is also how \<open>str\<close> prints \<open>start_date.date()\<close>.\<close>

definition digit_char :: "nat \<Rightarrow> char" where
  "digit_char n = ''0123456789'' ! (n mod 10)"

fun str_nat :: "nat \<Rightarrow> string" where
  "str_nat n = (if n < 10 then [digit_char n] else str_nat (n div 10) @ [digit_char n])"

declare str_nat.simps [simp del]

definition zfill :: "nat \<Rightarrow> string \<Rightarrow> string" where
  "zfill w s = replicate (w - length s) (CHR ''0'') @ s"

definition strftime_Ymd :: "date \<Rightarrow> string" where
  "strftime_Ymd dt =
     (case dt of (y, m, d) \<Rightarrow>
        zfill 4 (str_nat y) @ ''-'' @ zfill 2 (str_nat m) @ ''-'' @ zfill 2 (str_nat d))"

text \<open>The chart: what \<open>px.line\<close> is given, and the settings applied to the figure.\<close>

record figure =
  data_frame :: "long_row list"
  x_column :: string
  y_column :: string
  color_column :: string
  title :: string
  template :: string
  hovertemplate :: string
  yaxis_ticksuffix :: string
  hline_y :: int
  hline_dash :: string
  hline_color :: string
  hovermode :: string
  legend_title_text :: string

text \<open>The line drawn for one asset: the rows of the long table with that asset.\<close>

definition line_of :: "figure \<Rightarrow> string \<Rightarrow> (date \<times> float64) list" where
  "line_of fig a = map (\<lambda>(d, c, v). (d, v)) (filter (\<lambda>(d, c, v). c = a) (data_frame fig))"

text \<open>\<open>html.Span\<close>: with a text or with a list of children, and a style.\<close>

datatype html = Span_text string "(string \<times> string) list" | Span "html list"

fun text_content :: "html \<Rightarrow> string" where
  "text_content (Span_text s st) = s"
| "text_content (Span cs) = concat (map text_content cs)"

text \<open>The arrow U+2192, as the three bytes of its UTF-8 encoding.\<close>

definition arrow :: string where
  "arrow = [CHR 0xE2, CHR 0x86, CHR 0x92]"

definition label_style :: "(string \<times> string) list" where
  "label_style = [(''color'', ''#1f77b4''), (''fontWeight'', ''bold'')]"

definition update_graph ::
  "'a globals_scheme \<Rightarrow> int list \<Rightarrow> (py_error + figure \<times> html) \<times> 'a globals_scheme" where
  "update_graph g selected_range =
     (case selected_range of
        [start_idx, end_idx] \<Rightarrow>
          (case getitem (date_list g) start_idx of
             Inl err \<Rightarrow> (Inl err, g)
           | Inr start_date \<Rightarrow>
               (case getitem (date_list g) end_idx of
                  Inl err \<Rightarrow> (Inl err, g)
                | Inr end_date \<Rightarrow>
                    (let filtered = loc_slice start_date end_date (data g)
                     in case iloc0 filtered of
                          Inl err \<Rightarrow> (Inl err, g)
                        | Inr baseline \<Rightarrow>
                            (let performance =
                                   frame_mul (frame_sub (frame_div filtered baseline) (Fin 1)) (Fin 100);
                                 df = melt performance;
                                 fig = \<lparr>data_frame = df,
                                        x_column = ''Date'',
                                        y_column = ''Performance (%)'',
                                        color_column = ''Asset'',
                                        title = ''Performance from '' @ strftime_Ymd start_date,
                                        template = ''plotly_dark'',
                                        hovertemplate = ''%{y:.2f}%<br>%{x|%Y-%m-%d}'',
                                        yaxis_ticksuffix = ''%'',
                                        hline_y = 0,
                                        hline_dash = ''dash'',
                                        hline_color = ''gray'',
                                        hovermode = ''x unified'',
                                        legend_title_text = ''Assets''\<rparr>;
                                 range_text =
                                   Span [Span_text (strftime_Ymd start_date) label_style,
                                         Span_text (''  '' @ arrow @ ''  '') [],
                                         Span_text (strftime_Ymd end_date) label_style]
                             in (Inr (fig, range_text), g)))))
      | _ \<Rightarrow> (Inl ValueError, g))"

text \<open>The event loop: one callback per range-change event, on the same globals.\<close>

fun run_events ::
  "'a globals_scheme \<Rightarrow> int list list \<Rightarrow> (py_error + figure \<times> html) list \<times> 'a globals_scheme" where
  "run_events g [] = ([], g)"
| "run_events g (r # rs) =
     (let (out, g') = update_graph g r; (outs, g'') = run_events g' rs in (out # outs, g''))"


section \<open>Notions of the specification\<close>

text \<open>
  A PriceTable: every column has one cell per date, the dates are strictly increasing,
  the instruments' display names are unique.
\<close>

definition price_table :: "frame \<Rightarrow> bool" where
  "price_table t =
     (wf_frame t \<and> sorted_wrt (<) (index t) \<and> distinct (map fst (columns t)))"

text \<open>A valid selected range: \<open>0 \<le> start_index \<le> end_index \<le> last_index\<close>.\<close>

definition valid_range :: "frame \<Rightarrow> int \<Rightarrow> int \<Rightarrow> bool" where
  "valid_range t s e = (0 \<le> s \<and> s \<le> e \<and> e \<le> int (length (index t)) - 1)"

text \<open>The globals of a process whose prepared table is \<open>t\<close>.\<close>

definition session :: "frame \<Rightarrow> globals" where
  "session t = \<lparr>data = t, date_list = index t\<rparr>"

text \<open>The rows \<open>s..e\<close> of a list, both included.\<close>

definition window :: "int \<Rightarrow> int \<Rightarrow> 'a list \<Rightarrow> 'a list" where
  "window s e zs = take (nat (e - s + 1)) (drop (nat s) zs)"

text \<open>The specification's formula \<open>(price / baseline - 1) * 100\<close>, in binary64.\<close>

definition rebase :: "float64 \<Rightarrow> float64 \<Rightarrow> float64" where
  "rebase b v = fmul (fsub (fdiv v b) (Fin 1)) (Fin 100)"

text \<open>The long table of a render, cell by cell from the specification's formula.\<close>

definition long_table :: "frame \<Rightarrow> int \<Rightarrow> int \<Rightarrow> long_row list" where
  "long_table t s e =
     concat (map (\<lambda>(c, xs). map (\<lambda>(d, v). (d, c, v))
                   (zip (window s e (index t)) (map (rebase (xs ! nat s)) (window s e xs)))) (columns t))"

text \<open>What a render shows: the line of one asset, the dates of the chart, the label.\<close>

definition performance_of :: "'a globals_scheme \<Rightarrow> int list \<Rightarrow> string \<Rightarrow> py_error + (date \<times> float64) list" where
  "performance_of g r a =
     (case fst (update_graph g r) of Inl err \<Rightarrow> Inl err | Inr (fig, lbl) \<Rightarrow> Inr (line_of fig a))"


definition label_of :: "'a globals_scheme \<Rightarrow> int list \<Rightarrow> py_error + string" where
  "label_of g r =
     (case fst (update_graph g r) of Inl err \<Rightarrow> Inl err | Inr (fig, lbl) \<Rightarrow> Inr (text_content lbl))"

text \<open>A baseline from which a percentage can be taken: a finite number other than zero.\<close>

fun finite_nonzero :: "float64 \<Rightarrow> bool" where
  "finite_nonzero (Fin q) = (q \<noteq> 0)"
| "finite_nonzero _ = False"

text \<open>
  \<open>nearest_earlier xs i v\<close>: \<open>v\<close> is the nearest non-missing value of the column \<open>xs\<close>
  in a row before row \<open>i\<close>.
\<close>

definition nearest_earlier :: "float64 list \<Rightarrow> nat \<Rightarrow> float64 \<Rightarrow> bool" where
  "nearest_earlier xs i v =
     (\<exists>k<i. \<not> isna (xs ! k) \<and> (\<forall>l. k < l \<and> l < i \<longrightarrow> isna (xs ! l)) \<and> v = xs ! k)"

text \<open>\<open>YYYY-MM-DD\<close>: four digits, two digits and two digits, joined by hyphens.\<close>

definition valid_date :: "date \<Rightarrow> bool" where
  "valid_date dt =
     (case dt of (y, m, d) \<Rightarrow> 1 \<le> y \<and> y \<le> 9999 \<and> 1 \<le> m \<and> m \<le> 12 \<and> 1 \<le> d \<and> d \<le> 31)"

definition yyyy_mm_dd :: "date \<Rightarrow> string" where
  "yyyy_mm_dd dt =
     (case dt of (y, m, d) \<Rightarrow>
        [digit_char (y div 1000), digit_char (y div 100), digit_char (y div 10), digit_char y,
         CHR ''-'', digit_char (m div 10), digit_char m,
         CHR ''-'', digit_char (d div 10), digit_char d])"

text \<open>
  A column with every price multiplied by a constant: the products are computed in
  binary64, as any table the program holds has them. A product is exact when rounding
  leaves it as it is.
\<close>

definition scale_column :: "rat \<Rightarrow> string \<Rightarrow> frame \<Rightarrow> frame" where
  "scale_column k a t =
     t\<lparr>columns := map (\<lambda>(c, xs). if c = a then (c, map (fmul (Fin k)) xs) else (c, xs))
                    (columns t)\<rparr>"

fun exact_product :: "rat \<Rightarrow> float64 \<Rightarrow> bool" where
  "exact_product k (Fin q) = (fmul (Fin k) (Fin q) = Fin (k * q))"
| "exact_product k v = True"

text \<open>A finite cell is a binary64 number when rounding leaves it as it is.\<close>

fun is_binary64 :: "float64 \<Rightarrow> bool" where
  "is_binary64 (Fin q) = (fl q = Fin q)"
| "is_binary64 v = True"

subsection \<open>Tables of the examples\<close>

definition sep_dates :: "date list" where
  "sep_dates = [(2021, 9, 27), (2021, 9, 28), (2021, 9, 29)]"

definition gold_table :: frame where
  "gold_table = \<lparr>index = sep_dates, columns = [(''Gold'', [Fin 100, Fin 110, Fin 90])]\<rparr>"


text \<open>Two prices, and the binary64 number nearest to 0.3.\<close>

definition ab_table :: frame where
  "ab_table = \<lparr>index = [(2021, 9, 27), (2021, 9, 28)], columns = [(''A'', [Fin 389, Fin 668])]\<rparr>"

definition c03 :: rat where
  "c03 = 5404319552844595 / 2 ^ 54"

text \<open>An instrument first quoted on the second day, one quoted at zero on the first.\<close>

definition late_table :: frame where
  "late_table =
     \<lparr>index = sep_dates,
      columns = [(''Gold'', [Fin 100, Fin 110, Fin 90]), (''Late'', [NaN, Fin 5, Fin 6])]\<rparr>"

definition zero_table :: frame where
  "zero_table =
     \<lparr>index = sep_dates,
      columns = [(''Gold'', [Fin 100, Fin 110, Fin 90]), (''Zero'', [Fin 0, Fin 5, Fin (- 5)])]\<rparr>"

text \<open>A download with gaps and an instrument without any quote; the same, rows out of order.\<close>

definition raw_table :: frame where
  "raw_table =
     \<lparr>index = sep_dates,
      columns = [(''Gold'', [Fin 100, NaN, Fin 90]),
                 (''Void'', [NaN, NaN, NaN]),
                 (''Late'', [NaN, Fin 5, NaN])]\<rparr>"

definition shuffled_table :: frame where
  "shuffled_table =
     \<lparr>index = [(2021, 9, 29), (2021, 9, 27), (2021, 9, 28)],
      columns = [(''Gold'', [Fin 100, NaN, Fin 90])]\<rparr>"


section \<open>Binary64 arithmetic: facts\<close>

text \<open>
  Rounding at a few known points: one is a binary64 number, one tenth is not, and a tie
  goes to the even neighbour.
\<close>

lemma fl_one: "fl 1 = Fin 1"
  by code_simp

lemma fl_tenth: "fl (1 / 10) = Fin (3602879701896397 / 2 ^ 55)"
  by code_simp

lemma fl_ties_to_even: "fl (2 ^ 53 + 1) = Fin (2 ^ 53)" "fl (2 ^ 53 + 3) = Fin (2 ^ 53 + 4)"
  by code_simp+

text \<open>
  The rebasing formula at the baseline itself, and on the baselines that give no
  percentage: a missing one, and a zero.
\<close>

lemma rebase_self: "rebase b b = (if finite_nonzero b then Fin 0 else NaN)"
  by (cases b) (simp_all add: rebase_def fdiv_def fsub_def fmul_def mk_zero_def mk_inf_def fl_one)

lemma rebase_nan_baseline: "rebase NaN v = NaN"
  by (simp add: rebase_def fdiv_def fsub_def fmul_def)

lemma rebase_zero_baseline:
  "is_zero b \<Longrightarrow> rebase b v = (if isna v \<or> is_zero v then NaN else mk_inf (sign_bit v \<noteq> sign_bit b))"
  by (cases b; cases v) (simp_all add: rebase_def fdiv_def fsub_def fmul_def mk_zero_def mk_inf_def isna_def)

lemma rebase_100_110: "rebase (Fin 100) (Fin 110) = Fin (10 + 5 / 2 ^ 49)"
  by code_simp

lemma rebase_100_90: "rebase (Fin 100) (Fin 90) = Fin (- 10 + 1 / 2 ^ 49)"
  by code_simp

lemma rebase_110_90: "rebase (Fin 110) (Fin 90) = Fin (- (5117726849284653 / 281474976710656))"
  by code_simp

section \<open>Slicing a sorted index\<close>

lemma filter_interval:
  "(\<forall>i<length zs. P (zs ! i) \<longleftrightarrow> s \<le> i \<and> i \<le> e) \<Longrightarrow> s \<le> e \<Longrightarrow> e < length zs
     \<Longrightarrow> filter P zs = take (Suc e - s) (drop s zs)"
proof (induction zs arbitrary: s e)
  case Nil
  then show ?case by simp
next
  case (Cons z zs)
  have step: "\<forall>i<length zs. P (zs ! i) \<longleftrightarrow> s \<le> Suc i \<and> Suc i \<le> e"
    using Cons.prems(1) by fastforce
  show ?case
  proof (cases s)
    case 0
    have pz: "P z" using Cons.prems(1) 0 by fastforce
    show ?thesis
    proof (cases e)
      case e0: 0
      have "\<forall>x\<in>set zs. \<not> P x"
        using step 0 e0 by (auto simp: in_set_conv_nth)
      then have "filter P zs = []" by (simp add: filter_empty_conv)
      then show ?thesis using pz 0 e0 by simp
    next
      case (Suc e')
      have "filter P zs = take (Suc e' - 0) (drop 0 zs)"
        using step 0 Suc Cons.prems(3) by (intro Cons.IH) auto
      then show ?thesis using pz 0 Suc by simp
    qed
  next
    case (Suc s')
    then obtain e' where e': "e = Suc e'" using Cons.prems(2) by (cases e) auto
    have npz: "\<not> P z" using Cons.prems(1) Suc by fastforce
    have "filter P zs = take (Suc e' - s') (drop s' zs)"
      using step Suc e' Cons.prems(2,3) by (intro Cons.IH) auto
    then show ?thesis using npz Suc e' by simp
  qed
qed

lemma strict_nth_le_iff:
  fixes ds :: "('a::linorder) list"
  assumes "sorted_wrt (<) ds" "i < length ds" "j < length ds"
  shows "ds ! i \<le> ds ! j \<longleftrightarrow> i \<le> j"
proof
  assume le: "ds ! i \<le> ds ! j"
  show "i \<le> j"
  proof (rule ccontr)
    assume "\<not> i \<le> j"
    then have "j < i" by simp
    then have "ds ! j < ds ! i" using assms sorted_wrt_nth_less by blast
    then show False using le by simp
  qed
next
  assume "i \<le> j"
  then consider "i = j" | "i < j" by linarith
  then show "ds ! i \<le> ds ! j"
  proof cases
    case 1 then show ?thesis by simp
  next
    case 2
    then have "ds ! i < ds ! j" using assms sorted_wrt_nth_less by blast
    then show ?thesis by simp
  qed
qed

lemma filter_in_range_index:
  assumes "sorted_wrt (<) ds" "s \<le> e" "e < length ds"
  shows "filter (in_range (ds ! s) (ds ! e)) ds = take (Suc e - s) (drop s ds)"
proof (rule filter_interval)
  show "\<forall>i<length ds. in_range (ds ! s) (ds ! e) (ds ! i) \<longleftrightarrow> s \<le> i \<and> i \<le> e"
    using assms by (simp add: in_range_def strict_nth_le_iff)
qed (use assms in auto)

lemma filter_in_range_zip:
  assumes "sorted_wrt (<) ds" "s \<le> e" "e < length ds" "length xs = length ds"
  shows "map snd (filter (\<lambda>(d, x). in_range (ds ! s) (ds ! e) d) (zip ds xs))
           = take (Suc e - s) (drop s xs)"
proof -
  have "filter (\<lambda>(d, x). in_range (ds ! s) (ds ! e) d) (zip ds xs)
          = take (Suc e - s) (drop s (zip ds xs))"
  proof (rule filter_interval)
    show "\<forall>i<length (zip ds xs).
            (case zip ds xs ! i of (d, x) \<Rightarrow> in_range (ds ! s) (ds ! e) d) \<longleftrightarrow> s \<le> i \<and> i \<le> e"
      using assms by (simp add: in_range_def strict_nth_le_iff)
  qed (use assms in auto)
  also have "\<dots> = zip (take (Suc e - s) (drop s ds)) (take (Suc e - s) (drop s xs))"
    by (simp add: take_zip drop_zip)
  finally show ?thesis using assms by simp
qed

lemma getitem_valid: "0 \<le> i \<Longrightarrow> i < int (length xs) \<Longrightarrow> getitem xs i = Inr (xs ! nat i)"
  by (simp add: getitem_def)

lemma wf_frame_length: "wf_frame t \<Longrightarrow> (c, xs) \<in> set (columns t) \<Longrightarrow> length xs = length (index t)"
  by (auto simp: wf_frame_def list_all_iff)

lemma loc_slice_window:
  assumes "wf_frame t" "sorted_wrt (<) (index t)" "s \<le> e" "e < length (index t)"
  shows "loc_slice (index t ! s) (index t ! e) t =
           \<lparr>index = take (Suc e - s) (drop s (index t)),
            columns = map (\<lambda>(c, xs). (c, take (Suc e - s) (drop s xs))) (columns t)\<rparr>"
proof -
  have "map (\<lambda>(c, xs). (c, map snd (filter (\<lambda>(d, x). in_range (index t ! s) (index t ! e) d)
                                      (zip (index t) xs)))) (columns t)
          = map (\<lambda>(c, xs). (c, take (Suc e - s) (drop s xs))) (columns t)"
  proof (rule map_cong[OF refl])
    fix p assume "p \<in> set (columns t)"
    then have "length (snd p) = length (index t)"
      using assms(1) wf_frame_length[of t "fst p" "snd p"] by simp
    then show "(case p of (c, xs) \<Rightarrow> (c, map snd (filter (\<lambda>(d, x). in_range (index t ! s) (index t ! e) d)
                                      (zip (index t) xs))))
             = (case p of (c, xs) \<Rightarrow> (c, take (Suc e - s) (drop s xs)))"
      using assms filter_in_range_zip[of "index t" s e "snd p"] by (simp add: case_prod_beta)
  qed
  then show ?thesis
    using assms by (simp add: loc_slice_def filter_in_range_index)
qed

lemma window_nat: "0 \<le> s \<Longrightarrow> s \<le> e \<Longrightarrow> window s e zs = take (Suc (nat e) - nat s) (drop (nat s) zs)"
proof -
  assume "0 \<le> s" "s \<le> e"
  then have "nat (e - s + 1) = Suc (nat e) - nat s" by linarith
  then show ?thesis by (simp add: window_def)
qed

lemma window_nonempty:
  assumes "0 \<le> s" "s \<le> e" "nat e < length zs"
  shows "window s e zs \<noteq> []"
proof -
  have "nat s \<le> nat e" using assms by linarith
  then show ?thesis using assms by (simp add: window_nat)
qed

lemma hd_window: "s \<le> e \<Longrightarrow> e < length xs \<Longrightarrow> hd (take (Suc e - s) (drop s xs)) = xs ! s"
  by (simp add: hd_drop_conv_nth)

lemma hd_window_int: "0 \<le> s \<Longrightarrow> s \<le> e \<Longrightarrow> nat e < length zs \<Longrightarrow> hd (window s e zs) = zs ! nat s"
  by (simp add: window_nat hd_drop_conv_nth)

lemma length_window: "0 \<le> s \<Longrightarrow> s \<le> e \<Longrightarrow> nat e < length zs \<Longrightarrow> length (window s e zs) = nat (e - s + 1)"
  by (auto simp: window_def)


lemma valid_rangeD:
  "valid_range t s e \<Longrightarrow> 0 \<le> s \<and> s \<le> e \<and> nat e < length (index t)"
  by (auto simp: valid_range_def)

section \<open>What a valid render computes\<close>

lemma rebase_columns:
  "columns (frame_mul (frame_sub (frame_div F (map (\<lambda>(c, xs). hd xs) (columns F))) (Fin 1)) (Fin 100))
     = map (\<lambda>(c, xs). (c, map (rebase (hd xs)) xs)) (columns F)"
  by (simp add: frame_mul_def frame_sub_def frame_div_def zip_map2 zip_same_conv_map
      case_prod_beta rebase_def comp_def)

lemma rebase_index:
  "index (frame_mul (frame_sub (frame_div F row) k1) k2) = index F"
  by (simp add: frame_mul_def frame_sub_def frame_div_def)

text \<open>
  On a price table and a valid range the callback returns a figure and a label: the long
  table holds, column after column, the rebased cells of the rows \<open>s..e\<close>.
\<close>

lemma update_graph_valid:
  assumes pt: "price_table t" and vr: "valid_range t s e"
  shows "\<exists>fig. fst (update_graph (session t) [s, e]) =
            Inr (fig, Span [Span_text (strftime_Ymd (index t ! nat s)) label_style,
                            Span_text (''  '' @ arrow @ ''  '') [],
                            Span_text (strftime_Ymd (index t ! nat e)) label_style])
          \<and> data_frame fig = long_table t s e
          \<and> title fig = ''Performance from '' @ strftime_Ymd (index t ! nat s)"
proof -
  let ?s = "nat s" and ?e = "nat e"
  have wf: "wf_frame t" and so: "sorted_wrt (<) (index t)"
    using pt by (auto simp: price_table_def)
  have b: "0 \<le> s" "s \<le> e" "e < int (length (index t))" "?s \<le> ?e" "?e < length (index t)"
    using vr by (auto simp: valid_range_def)
  have g1: "getitem (index t) s = Inr (index t ! ?s)" and g2: "getitem (index t) e = Inr (index t ! ?e)"
    using b by (auto intro: getitem_valid)
  have sl: "loc_slice (index t ! ?s) (index t ! ?e) t =
           \<lparr>index = window s e (index t),
            columns = map (\<lambda>(c, xs). (c, window s e xs)) (columns t)\<rparr>"
    using loc_slice_window[OF wf so b(4,5)] b by (simp add: window_nat)
  have ne: "window s e (index t) \<noteq> []"
    using b by (simp add: window_nat)
  have cols: "map (\<lambda>(c, xs). (c, map (rebase (hd xs)) xs)) (map (\<lambda>(c, xs). (c, window s e xs)) (columns t))
              = map (\<lambda>(c, xs). (c, map (rebase (xs ! ?s)) (window s e xs))) (columns t)"
    unfolding map_map
  proof (rule map_cong[OF refl])
    fix p assume "p \<in> set (columns t)"
    then have "length (snd p) = length (index t)"
      using wf wf_frame_length[of t "fst p" "snd p"] by simp
    then have "hd (window s e (snd p)) = snd p ! ?s"
      using b hd_window[of ?s ?e "snd p"] by (simp add: window_nat)
    then show "((\<lambda>(c, xs). (c, map (rebase (hd xs)) xs)) \<circ> (\<lambda>(c, xs). (c, window s e xs))) p
             = (case p of (c, xs) \<Rightarrow> (c, map (rebase (xs ! ?s)) (window s e xs)))"
      by (simp add: case_prod_beta)
  qed
  define F where "F = \<lparr>index = window s e (index t),
            columns = map (\<lambda>(c, xs). (c, window s e xs)) (columns t)\<rparr>"
  define R where "R = \<lparr>index = window s e (index t),
            columns = map (\<lambda>(c, xs). (c, map (rebase (xs ! ?s)) (window s e xs))) (columns t)\<rparr>"
  define P where "P = frame_mul (frame_sub (frame_div F (map (\<lambda>(c, xs). hd xs) (columns F))) (Fin 1)) (Fin 100)"
  have cP: "columns P = columns R"
    using rebase_columns[of F] cols by (simp add: F_def R_def P_def)
  have iP: "index P = index R"
    by (simp add: rebase_index F_def R_def P_def)
  have PR: "P = R"
    by (rule frame.equality) (simp_all add: cP iP)
  have il: "iloc0 F = Inr (map (\<lambda>(c, xs). hd xs) (columns F))"
    using ne by (simp add: iloc0_def F_def)
  have mr: "melt R = long_table t s e"
    by (simp add: melt_def long_table_def R_def comp_def case_prod_unfold)
  show ?thesis
    using g1 g2 il mr PR[unfolded P_def]
    by (simp add: update_graph_def session_def sl F_def[symmetric] Let_def)
qed

lemma filter_other_asset:
  "c \<notin> fst ` set cols \<Longrightarrow>
     filter (\<lambda>(d, a, v). a = c) (concat (map (\<lambda>p. map (\<lambda>(d, v). (d, fst p, v)) (zip ds (h p))) cols)) = []"
  by (induction cols) (auto simp: filter_empty_conv)

lemma filter_own_asset:
  "filter (\<lambda>(d, a, v). a = c) (map (\<lambda>(d, v). (d, c, v)) zs) = map (\<lambda>(d, v). (d, c, v)) zs"
  by (induction zs) auto

lemma line_of_concat:
  "distinct (map fst cols) \<Longrightarrow> p \<in> set cols \<Longrightarrow>
     map (\<lambda>(d, a, v). (d, v))
       (filter (\<lambda>(d, a, v). a = fst p) (concat (map (\<lambda>p. map (\<lambda>(d, v). (d, fst p, v)) (zip ds (h p))) cols)))
     = zip ds (h p)"
proof (induction cols)
  case Nil
  then show ?case by simp
next
  case (Cons q cols)
  show ?case
  proof (cases "p = q")
    case True
    then have "fst p \<notin> fst ` set cols" using Cons.prems(1) by auto
    then show ?thesis
      using True filter_other_asset[of "fst p" cols ds h] filter_own_asset[of "fst p" "zip ds (h p)"]
      by (simp add: comp_def case_prod_unfold)
  next
    case False
    then have pin: "p \<in> set cols" using Cons.prems(2) by simp
    then have "fst q \<noteq> fst p" using Cons.prems(1) by (auto simp: image_iff)
    then have "filter (\<lambda>(d, a, v). a = fst p) (map (\<lambda>(d, v). (d, fst q, v)) (zip ds (h q))) = []"
      by (auto simp: filter_empty_conv)
    then show ?thesis using Cons.IH pin Cons.prems(1) by simp
  qed
qed

lemma long_table_alt:
  "long_table t s e =
     concat (map (\<lambda>p. map (\<lambda>(d, v). (d, fst p, v))
                   (zip (window s e (index t)) (map (rebase (snd p ! nat s)) (window s e (snd p))))) (columns t))"
  by (simp add: long_table_def case_prod_unfold)

lemma performance_of_valid:
  assumes "price_table t" "valid_range t s e" "(c, xs) \<in> set (columns t)"
  shows "performance_of (session t) [s, e] c =
           Inr (zip (window s e (index t)) (map (rebase (xs ! nat s)) (window s e xs)))"
proof -
  obtain fig lbl where fg: "fst (update_graph (session t) [s, e]) = Inr (fig, lbl)"
    and df: "data_frame fig = long_table t s e"
    using update_graph_valid[OF assms(1,2)] by blast
  have "distinct (map fst (columns t))" using assms(1) by (simp add: price_table_def)
  then have "line_of fig c = zip (window s e (index t)) (map (rebase (xs ! nat s)) (window s e xs))"
    using line_of_concat[of "columns t" "(c, xs)" "window s e (index t)"
            "\<lambda>p. map (rebase (snd p ! nat s)) (window s e (snd p))"] assms(3)
    by (simp add: line_of_def df long_table_alt)
  then show ?thesis by (simp add: performance_of_def fg)
qed



text \<open>
  The callback writes nothing.
\<close>

lemma update_graph_state: "snd (update_graph g r) = g"
  by (simp add: update_graph_def Let_def split: list.split sum.split)

lemma run_events_state: "snd (run_events g rs) = g"
  by (induction rs) (simp_all add: case_prod_unfold Let_def update_graph_state)

section \<open>Formatting dates\<close>

lemma str_nat_small: "n < 10 \<Longrightarrow> str_nat n = [digit_char n]"
  by (subst str_nat.simps) simp

lemma str_nat_step: "10 \<le> n \<Longrightarrow> str_nat n = str_nat (n div 10) @ [digit_char n]"
  by (subst str_nat.simps) simp

lemma digit_char_zero: "digit_char 0 = CHR ''0''"
  by (simp add: digit_char_def)

lemma str_nat_2: "10 \<le> n \<Longrightarrow> n < 100 \<Longrightarrow> str_nat n = [digit_char (n div 10), digit_char n]"
  by (simp add: str_nat_step str_nat_small)

lemma str_nat_3: "100 \<le> n \<Longrightarrow> n < 1000 \<Longrightarrow>
    str_nat n = [digit_char (n div 100), digit_char (n div 10), digit_char n]"
  by (simp add: str_nat_step[of n] str_nat_2 div_mult2_eq[symmetric])

lemma str_nat_4: "1000 \<le> n \<Longrightarrow> n < 10000 \<Longrightarrow>
    str_nat n = [digit_char (n div 1000), digit_char (n div 100), digit_char (n div 10), digit_char n]"
  by (simp add: str_nat_step[of n] str_nat_3 div_mult2_eq[symmetric])

lemma zfill_2: "n < 100 \<Longrightarrow> zfill 2 (str_nat n) = [digit_char (n div 10), digit_char n]"
  by (cases "n < 10") (simp_all add: zfill_def str_nat_small str_nat_2 digit_char_zero)

lemma zfill_4:
  assumes "n < 10000"
  shows "zfill 4 (str_nat n) =
           [digit_char (n div 1000), digit_char (n div 100), digit_char (n div 10), digit_char n]"
proof -
  have r3: "replicate 3 (CHR ''0'') = [CHR ''0'', CHR ''0'', CHR ''0'']"
    and r2: "replicate 2 (CHR ''0'') = [CHR ''0'', CHR ''0'']"
    by (simp_all add: numeral_3_eq_3 numeral_2_eq_2)
  consider "n < 10" | "10 \<le> n" "n < 100" | "100 \<le> n" "n < 1000" | "1000 \<le> n"
    by linarith
  then show ?thesis
  proof cases
    case 1
    then have "zfill 4 (str_nat n) = replicate 3 (CHR ''0'') @ [digit_char n]"
      by (simp add: zfill_def str_nat_small)
    moreover have "n div 1000 = 0" "n div 100 = 0" "n div 10 = 0" using 1 by simp_all
    ultimately show ?thesis by (simp add: r3 digit_char_zero)
  next
    case 2
    then have "zfill 4 (str_nat n) = replicate 2 (CHR ''0'') @ [digit_char (n div 10), digit_char n]"
      by (simp add: zfill_def str_nat_2)
    moreover have "n div 1000 = 0" "n div 100 = 0" using 2 by simp_all
    ultimately show ?thesis by (simp add: r2 digit_char_zero)
  next
    case 3
    then have "zfill 4 (str_nat n) =
        replicate 1 (CHR ''0'') @ [digit_char (n div 100), digit_char (n div 10), digit_char n]"
      by (simp add: zfill_def str_nat_3)
    moreover have "n div 1000 = 0" using 3 by simp
    ultimately show ?thesis by (simp add: digit_char_zero)
  next
    case 4
    then show ?thesis
      using assms by (simp add: zfill_def str_nat_4)
  qed
qed

lemma strftime_yyyy_mm_dd: "valid_date dt \<Longrightarrow> strftime_Ymd dt = yyyy_mm_dd dt"
  by (cases dt) (simp add: valid_date_def strftime_Ymd_def yyyy_mm_dd_def zfill_2 zfill_4)

lemma sep_dates_fmt:
  "yyyy_mm_dd (2021, 9, 28) = ''2021-09-28''" "yyyy_mm_dd (2021, 9, 29) = ''2021-09-29''"
  by (simp_all add: yyyy_mm_dd_def digit_char_def)

section \<open>Forward fill, dropped columns, sorted rows\<close>

lemma length_ffill_from: "length (ffill_from p xs) = length xs"
  by (induction xs arbitrary: p) auto

lemma ffill_from_present:
  "i < length xs \<Longrightarrow> \<not> isna (xs ! i) \<Longrightarrow> ffill_from p xs ! i = xs ! i"
proof (induction xs arbitrary: p i)
  case Nil
  then show ?case by simp
next
  case (Cons x xs)
  then show ?case by (cases i) auto
qed

lemma ffill_from_leading:
  "i < length xs \<Longrightarrow> \<forall>l\<le>i. isna (xs ! l) \<Longrightarrow> ffill_from p xs ! i = p"
proof (induction xs arbitrary: i)
  case Nil
  then show ?case by simp
next
  case (Cons x xs)
  have x: "isna x" using Cons.prems(2) by force
  show ?case
  proof (cases i)
    case 0
    then show ?thesis using x by simp
  next
    case (Suc i')
    have "\<forall>l\<le>i'. isna (xs ! l)"
      using Cons.prems(2) Suc by force
    then show ?thesis using Cons.IH[of i'] Cons.prems(1) Suc x by simp
  qed
qed

lemma ffill_from_gap:
  "i < length xs \<Longrightarrow> k < i \<Longrightarrow> \<not> isna (xs ! k) \<Longrightarrow> \<forall>l. k < l \<and> l \<le> i \<longrightarrow> isna (xs ! l)
     \<Longrightarrow> ffill_from p xs ! i = xs ! k"
proof (induction xs arbitrary: p i k)
  case Nil
  then show ?case by simp
next
  case (Cons x xs)
  obtain i' where i': "i = Suc i'" using Cons.prems(2) by (cases i) auto
  show ?case
  proof (cases k)
    case 0
    have "\<forall>l\<le>i'. isna (xs ! l)"
      using Cons.prems(4) 0 i' by force
    then have "ffill_from x xs ! i' = x"
      using Cons.prems(1) i' by (intro ffill_from_leading) auto
    then show ?thesis using Cons.prems(3) 0 i' by simp
  next
    case (Suc k')
    have "\<forall>l. k' < l \<and> l \<le> i' \<longrightarrow> isna (xs ! l)"
      using Cons.prems(4) Suc i' by force
    then have "\<And>q. ffill_from q xs ! i' = xs ! k'"
      using Cons.prems(1,2,3) Suc i' by (intro Cons.IH) auto
    then show ?thesis using Suc i' by simp
  qed
qed

lemma last_present:
  "\<exists>k<i. \<not> isna (xs ! k) \<Longrightarrow> \<exists>k<i. \<not> isna (xs ! k) \<and> (\<forall>l. k < l \<and> l < i \<longrightarrow> isna (xs ! l))"
proof (induction i)
  case 0
  then show ?case by simp
next
  case (Suc i)
  show ?case
  proof (cases "isna (xs ! i)")
    case False
    then show ?thesis by (intro exI[of _ i]) auto
  next
    case True
    then have "\<exists>k<i. \<not> isna (xs ! k)"
      using Suc.prems less_Suc_eq by auto
    then obtain k where k: "k < i" "\<not> isna (xs ! k)" "\<forall>l. k < l \<and> l < i \<longrightarrow> isna (xs ! l)"
      using Suc.IH by blast
    have "\<forall>l. k < l \<and> l < Suc i \<longrightarrow> isna (xs ! l)"
      using k(3) True less_Suc_eq by auto
    then show ?thesis using k by (intro exI[of _ k]) auto
  qed
qed

lemma ffill_from_cell:
  assumes "i < length xs"
  shows "if \<not> isna (xs ! i) then ffill_from NaN xs ! i = xs ! i
         else if \<exists>k<i. \<not> isna (xs ! k) then nearest_earlier xs i (ffill_from NaN xs ! i)
         else isna (ffill_from NaN xs ! i)"
proof (cases "isna (xs ! i)")
  case False
  then show ?thesis using assms by (simp add: ffill_from_present)
next
  case True
  show ?thesis
  proof (cases "\<exists>k<i. \<not> isna (xs ! k)")
    case ex: True
    then obtain k where k: "k < i" "\<not> isna (xs ! k)" "\<forall>l. k < l \<and> l < i \<longrightarrow> isna (xs ! l)"
      using last_present by blast
    have "\<forall>l. k < l \<and> l \<le> i \<longrightarrow> isna (xs ! l)"
      using k(3) True le_neq_implies_less by blast
    then have "ffill_from NaN xs ! i = xs ! k"
      using assms k by (intro ffill_from_gap) auto
    then have "nearest_earlier xs i (ffill_from NaN xs ! i)"
      using k by (auto simp: nearest_earlier_def)
    then show ?thesis using True ex by simp
  next
    case nex: False
    then have "\<forall>l\<le>i. isna (xs ! l)"
      using True le_neq_implies_less by blast
    then have "ffill_from NaN xs ! i = NaN"
      using assms by (intro ffill_from_leading) auto
    then have "isna (ffill_from NaN xs ! i)"
      by (simp add: isna_def)
    then show ?thesis using True nex by auto
  qed
qed

lemma ffill_from_keeps_present: "x \<in> set xs \<Longrightarrow> \<not> isna x \<Longrightarrow> x \<in> set (ffill_from p xs)"
  by (induction xs arbitrary: p) auto

lemma ffill_from_values: "set (ffill_from p xs) \<subseteq> insert p (set xs)"
  by (induction xs arbitrary: p) auto

lemma ffill_from_any_present:
  "list_ex (\<lambda>x. \<not> isna x) (ffill_from NaN xs) \<longleftrightarrow> list_ex (\<lambda>x. \<not> isna x) xs"
proof
  assume "list_ex (\<lambda>x. \<not> isna x) (ffill_from NaN xs)"
  then obtain x where "x \<in> set (ffill_from NaN xs)" "\<not> isna x" by (auto simp: list_ex_iff)
  then have "x \<in> set xs" using ffill_from_values[of NaN xs] by (auto simp: isna_def)
  then show "list_ex (\<lambda>x. \<not> isna x) xs" using \<open>\<not> isna x\<close> by (auto simp: list_ex_iff)
next
  assume "list_ex (\<lambda>x. \<not> isna x) xs"
  then show "list_ex (\<lambda>x. \<not> isna x) (ffill_from NaN xs)"
    using ffill_from_keeps_present by (auto simp: list_ex_iff)
qed

lemma map_insort_key: "map f (insort_key f z zs) = insort (f z) (map f zs)"
  by (induction zs) auto

lemma map_sort_key: "map f (sort_key f zs) = sort (map f zs)"
  by (induction zs) (simp_all add: map_insort_key)

lemma sort_column_cell:
  assumes "distinct ds" "length fs = length ds" "i < length ds" "j < length ds" "sort ds ! j = ds ! i"
  shows "map snd (sort_key fst (zip ds fs)) ! j = fs ! i"
proof -
  let ?S = "sort_key fst (zip ds fs)"
  have lS: "length ?S = length ds" using assms(2) by simp
  have "map fst ?S = sort ds"
    using assms(2) by (simp add: map_sort_key)
  then have f: "fst (?S ! j) = ds ! i"
    using assms(4,5) lS by (metis nth_map)
  have "?S ! j \<in> set (zip ds fs)"
    using lS assms(4) by (metis nth_mem set_sort)
  then obtain k where k: "k < length ds" "?S ! j = (ds ! k, fs ! k)"
    using assms(2) by (auto simp: set_zip)
  then have "ds ! k = ds ! i" using f by simp
  then have "k = i" using assms(1,3) k(1) by (simp add: nth_eq_iff_index_eq)
  then show ?thesis using k lS assms(4) by simp
qed

lemma length_sort_column:
  "length fs = length ds \<Longrightarrow> length (map snd (sort_key fst (zip ds fs))) = length (sort ds)"
  by simp

lemma columns_prepare:
  "columns (prepare raw) =
     map (\<lambda>(c, fs). (c, map snd (sort_key fst (zip (index raw) fs))))
       (filter (\<lambda>(c, fs). list_ex (\<lambda>x. \<not> isna x) fs)
          (map (\<lambda>(c, xs). (c, ffill_from NaN xs)) (columns raw)))"
  by (simp add: prepare_def sort_index_def dropna_all_def ffill_def)

lemma index_prepare: "index (prepare raw) = sort (index raw)"
  by (simp add: prepare_def sort_index_def dropna_all_def ffill_def)

lemma prepare_column_origin:
  assumes "(c, ys) \<in> set (columns (prepare raw))"
  shows "\<exists>xs. (c, xs) \<in> set (columns raw)
           \<and> ys = map snd (sort_key fst (zip (index raw) (ffill_from NaN xs)))
           \<and> list_ex (\<lambda>x. \<not> isna x) (ffill_from NaN xs)"
  using assms by (auto simp: columns_prepare)

lemma filter_map_names:
  "map fst (map (\<lambda>(c, fs). (c, g fs)) (filter (\<lambda>(c, fs). P fs) (map (\<lambda>(c, xs). (c, f xs)) cols)))
     = map fst (filter (\<lambda>(c, xs). P (f xs)) cols)"
  by (induction cols) auto

text \<open>
  Preparation establishes what the render relies on: from a well-formed download with
  distinct dates and distinct names it yields a price table.
\<close>

lemma price_table_prepare:
  assumes "wf_frame raw" "distinct (index raw)" "distinct (map fst (columns raw))"
  shows "price_table (prepare raw)"
proof -
  have so: "sorted_wrt (<) (index (prepare raw))"
    using assms(2) by (simp add: index_prepare strict_sorted_iff)
  have na: "map fst (columns (prepare raw))
          = map fst (filter (\<lambda>(c, xs). list_ex (\<lambda>x. \<not> isna x) (ffill_from NaN xs)) (columns raw))"
    unfolding columns_prepare by (rule filter_map_names)
  have di: "distinct (map fst (columns (prepare raw)))"
    unfolding na using assms(3) by (rule distinct_map_filter)
  have wf: "wf_frame (prepare raw)"
    unfolding wf_frame_def list_all_iff
  proof (clarify)
    fix c ys assume "(c, ys) \<in> set (columns (prepare raw))"
    then obtain xs where xs: "(c, xs) \<in> set (columns raw)"
      and ys: "ys = map snd (sort_key fst (zip (index raw) (ffill_from NaN xs)))"
      using prepare_column_origin by blast
    have "length (ffill_from NaN xs) = length (index raw)"
      using assms(1) xs by (simp add: length_ffill_from wf_frame_length)
    then show "length ys = length (index (prepare raw))"
      by (simp add: ys index_prepare)
  qed
  show ?thesis using wf so di by (simp add: price_table_def)
qed

section \<open>The example tables\<close>

lemma price_table_gold: "price_table gold_table"
  by (simp add: price_table_def wf_frame_def gold_table_def sep_dates_def)

lemma price_table_late: "price_table late_table"
  by (simp add: price_table_def wf_frame_def late_table_def sep_dates_def)

lemma price_table_zero: "price_table zero_table"
  by (simp add: price_table_def wf_frame_def zero_table_def sep_dates_def)

lemma valid_range_sep:
  "valid_range gold_table 0 2" "valid_range gold_table 1 2"
  "valid_range late_table 0 2" "valid_range zero_table 0 2"
  by (simp_all add: valid_range_def gold_table_def late_table_def zero_table_def sep_dates_def)

lemma wf_raw_table: "wf_frame raw_table" "distinct (index raw_table)"
  by (simp_all add: wf_frame_def raw_table_def sep_dates_def)

lemma prepare_raw_table:
  "prepare raw_table =
     \<lparr>index = sep_dates,
      columns = [(''Gold'', [Fin 100, Fin 100, Fin 90]), (''Late'', [NaN, Fin 5, Fin 5])]\<rparr>"
  by (simp add: prepare_def sort_index_def dropna_all_def ffill_def raw_table_def sep_dates_def isna_def)

text \<open>
  Forward fill runs before the rows are sorted, so it follows the order of the rows as
  they were delivered: on rows out of date order the cell of 2021-09-27 is filled from
  the row above it, which carries the later date 2021-09-29.
\<close>

lemma prepare_shuffled_table:
  "prepare shuffled_table =
     \<lparr>index = sep_dates, columns = [(''Gold'', [Fin 100, Fin 90, Fin 100])]\<rparr>"
  by (simp add: prepare_def sort_index_def dropna_all_def ffill_def shuffled_table_def sep_dates_def isna_def)

text \<open>
  The specification's first example, the range \<open>(1, 2)\<close>: 0.0 and the binary64 number
  printed as -18.181818181818176.
\<close>

lemma gold_performance:
  "performance_of (session gold_table) [0, 2] ''Gold''
     = Inr [((2021, 9, 27), Fin 0), ((2021, 9, 28), Fin (10 + 5 / 2 ^ 49)),
            ((2021, 9, 29), Fin (- 10 + 1 / 2 ^ 49))]"
proof -
  have m: "(''Gold'', [Fin 100, Fin 110, Fin 90]) \<in> set (columns gold_table)"
    by (simp add: gold_table_def)
  show ?thesis
    using performance_of_valid[OF price_table_gold valid_range_sep(1) m]
    by (simp add: gold_table_def sep_dates_def window_def rebase_100_110 rebase_100_90 rebase_self)
qed

lemma gold_tail_range:
  "performance_of (session gold_table) [1, 2] ''Gold''
     = Inr [((2021, 9, 28), Fin 0), ((2021, 9, 29), Fin (- (5117726849284653 / 2 ^ 48)))]"
proof -
  have m: "(''Gold'', [Fin 100, Fin 110, Fin 90]) \<in> set (columns gold_table)"
    by (simp add: gold_table_def)
  show ?thesis
    using performance_of_valid[OF price_table_gold valid_range_sep(2) m]
    by (simp add: gold_table_def sep_dates_def window_def rebase_110_90 rebase_self)
qed

section \<open>Scaling a column\<close>

text \<open>
  Multiplying by a positive constant keeps a NaN, an infinity and a zero as they are, and
  where the products are exact the rebased cell is the one of the prices themselves.
\<close>

lemma window_map: "window s e (map f zs) = map f (window s e zs)"
  by (simp add: window_def take_map drop_map)

lemma fmul_special:
  assumes "0 < k"
  shows "fmul (Fin k) NaN = NaN" "fmul (Fin k) PInf = PInf" "fmul (Fin k) NInf = NInf"
    "fmul (Fin k) NZero = NZero" "fmul (Fin k) (Fin 0) = Fin 0"
  using assms by (simp_all add: fmul_def mk_inf_def mk_zero_def)

lemma rebase_exact_product:
  assumes "0 < k" "exact_product k b" "exact_product k v"
  shows "rebase (fmul (Fin k) b) (fmul (Fin k) v) = rebase b v"
proof -
  have fb: "fmul (Fin k) b = (case b of Fin q \<Rightarrow> Fin (k * q) | _ \<Rightarrow> b)"
    using assms(1,2) by (cases b) (simp_all add: fmul_special)
  have fv: "fmul (Fin k) v = (case v of Fin q \<Rightarrow> Fin (k * q) | _ \<Rightarrow> v)"
    using assms(1,3) by (cases v) (simp_all add: fmul_special)
  show ?thesis
    unfolding fb fv using assms(1)
    by (cases b; cases v) (simp_all add: rebase_def fdiv_def mult_less_0_iff)
qed

lemma names_scale_column:
  "map fst (map (\<lambda>(c, xs). if c = a then (c, f xs) else (c, xs)) cols) = map fst cols"
  by (induction cols) auto

lemma price_table_scale_column:
  assumes "price_table t"
  shows "price_table (scale_column k a t)"
proof -
  have "columns (scale_column k a t) =
          map (\<lambda>(c, xs). if c = a then (c, map (fmul (Fin k)) xs) else (c, xs)) (columns t)"
    by (simp add: scale_column_def)
  then have n: "map fst (columns (scale_column k a t)) = map fst (columns t)"
    by (simp only: names_scale_column)
  have i: "index (scale_column k a t) = index t"
    by (simp add: scale_column_def)
  have w: "wf_frame (scale_column k a t)"
    using assms
    by (auto simp: price_table_def wf_frame_def list_all_iff scale_column_def split: if_splits)
  show ?thesis
    using assms w by (simp add: price_table_def n i)
qed

lemma valid_range_scale_column: "valid_range (scale_column k a t) s e = valid_range t s e"
  by (simp add: valid_range_def scale_column_def)

text \<open>
  The prices 389 and 668 and the factor nearest to 0.3 are binary64 numbers; their
  products are rounded, and the quotient of the rounded products is one unit in the last
  place above the quotient of the prices: 71.72236503856044 against 71.72236503856043.
\<close>

lemma ab_facts:
  "price_table ab_table" "valid_range ab_table 0 1"
  "(''A'', [Fin 389, Fin 668]) \<in> set (columns ab_table)"
  by (simp_all add: price_table_def wf_frame_def valid_range_def ab_table_def)

lemma c03_binary64: "is_binary64 (Fin c03)" "is_binary64 (Fin 389)" "is_binary64 (Fin 668)"
  by code_simp+

lemma ab_products:
  "fmul (Fin c03) (Fin 389) = Fin (2053008111383347 / 2 ^ 44)"
  "fmul (Fin c03) (Fin 668) = Fin (7050948166601933 / 2 ^ 45)"
  by code_simp+

lemma ab_rebased:
  "rebase (Fin 389) (Fin 668) = Fin (5047012757215491 / 2 ^ 46)"
  "rebase (fmul (Fin c03) (Fin 389)) (fmul (Fin c03) (Fin 668)) = Fin (5047012757215492 / 2 ^ 46)"
  by code_simp+

lemma ab_performance:
  "performance_of (session ab_table) [0, 1] ''A''
     = Inr [((2021, 9, 27), Fin 0), ((2021, 9, 28), Fin (5047012757215491 / 2 ^ 46))]"
  using performance_of_valid[OF ab_facts]
  by (simp add: ab_table_def window_def ab_rebased(1) rebase_self)

lemma ab_scaled_performance:
  "performance_of (session (scale_column c03 ''A'' ab_table)) [0, 1] ''A''
     = Inr [((2021, 9, 27), Fin 0), ((2021, 9, 28), Fin (5047012757215492 / 2 ^ 46))]"
proof -
  have m: "(''A'', [fmul (Fin c03) (Fin 389), fmul (Fin c03) (Fin 668)])
             \<in> set (columns (scale_column c03 ''A'' ab_table))"
    by (simp add: scale_column_def ab_table_def)
  have v: "valid_range (scale_column c03 ''A'' ab_table) 0 1"
    by (simp add: valid_range_scale_column ab_facts)
  have i: "index (scale_column c03 ''A'' ab_table) = [(2021, 9, 27), (2021, 9, 28)]"
    by (simp add: scale_column_def ab_table_def)
  have f: "finite_nonzero (fmul (Fin c03) (Fin 389))"
    by (simp add: ab_products)
  show ?thesis
    using performance_of_valid[OF price_table_scale_column[OF ab_facts(1)] v m] f
    by (simp add: i window_def ab_rebased(2) rebase_self)
qed

lemma gold_doubled: "exact_product 2 (Fin 100)" "exact_product 2 (Fin 110)" "exact_product 2 (Fin 90)"
  by code_simp+


section \<open>The claims\<close>

subsection \<open>C1: the baseline row\<close>

text \<open>
  C1 says that the performance at row \<open>start_index\<close> is exactly 0.0 in every surviving
  column. A column that survives preparation can still be missing at the start of the
  range (an instrument first quoted later): there the baseline is NaN and so is the whole
  rebased column. The table \<open>late_table\<close> and the full range show it.
\<close>

theorem baseline_zero_law_counterexample:
  "price_table late_table \<and> valid_range late_table 0 2
   \<and> performance_of (session late_table) [0, 2] ''Late''
       = Inr [((2021, 9, 27), NaN), ((2021, 9, 28), NaN), ((2021, 9, 29), NaN)]
   \<and> NaN \<noteq> Fin 0"
proof -
  have m: "(''Late'', [NaN, Fin 5, Fin 6]) \<in> set (columns late_table)"
    by (simp add: late_table_def)
  have "performance_of (session late_table) [0, 2] ''Late''
       = Inr [((2021, 9, 27), NaN), ((2021, 9, 28), NaN), ((2021, 9, 29), NaN)]"
    using performance_of_valid[OF price_table_late valid_range_sep(3) m]
    by (simp add: late_table_def sep_dates_def window_def rebase_nan_baseline)
  then show ?thesis
    using price_table_late valid_range_sep(3) by simp
qed

text \<open>
  C1, amended: for every price table, every valid range and every column, the
  performance at row \<open>start_index\<close> is exactly 0.0 when the column's value there is a finite
  number other than zero, and is NaN (missing) when that value is missing, zero or
  infinite.
\<close>

theorem baseline_row:
  assumes "price_table t" "valid_range t s e" "(c, xs) \<in> set (columns t)"
  shows "\<exists>ps. performance_of (session t) [s, e] c = Inr ps \<and> ps \<noteq> [] \<and>
           hd ps = (index t ! nat s, if finite_nonzero (xs ! nat s) then Fin 0 else NaN)"
proof -
  have b: "0 \<le> s" "s \<le> e" "nat e < length (index t)"
    using valid_rangeD[OF assms(2)] by auto
  have len: "length xs = length (index t)"
    using assms(1,3) by (auto simp: price_table_def intro: wf_frame_length)
  let ?ps = "zip (window s e (index t)) (map (rebase (xs ! nat s)) (window s e xs))"
  have ne1: "window s e (index t) \<noteq> []" and ne2: "window s e xs \<noteq> []"
    using b len window_nonempty[of s e "index t"] window_nonempty[of s e xs] by auto
  have "hd ?ps = (hd (window s e (index t)), rebase (xs ! nat s) (hd (window s e xs)))"
    using ne1 ne2 by (cases "window s e (index t)"; cases "window s e xs") auto
  then have "hd ?ps = (index t ! nat s, rebase (xs ! nat s) (xs ! nat s))"
    using b len by (simp add: hd_window_int)
  moreover have "?ps \<noteq> []" using ne1 ne2 by (cases "window s e (index t)"; cases "window s e xs") auto
  ultimately show ?thesis
    using performance_of_valid[OF assms] by (simp add: rebase_self)
qed

theorem baseline_row_witness:
  "price_table gold_table \<and> valid_range gold_table 1 2
   \<and> (''Gold'', [Fin 100, Fin 110, Fin 90]) \<in> set (columns gold_table)
   \<and> (\<exists>ps. performance_of (session gold_table) [1, 2] ''Gold'' = Inr ps \<and> ps \<noteq> []
            \<and> hd ps = ((2021, 9, 28), Fin 0))"
proof -
  have m: "(''Gold'', [Fin 100, Fin 110, Fin 90]) \<in> set (columns gold_table)"
    by (simp add: gold_table_def)
  have i: "index gold_table ! Suc 0 = (2021, 9, 28)" "[Fin 100, Fin 110, Fin 90] ! Suc 0 = Fin 110"
    by (simp_all add: gold_table_def sep_dates_def)
  have "\<exists>ps. performance_of (session gold_table) [1, 2] ''Gold'' = Inr ps \<and> ps \<noteq> []
            \<and> hd ps = ((2021, 9, 28), Fin 0)"
    using baseline_row[OF price_table_gold valid_range_sep(2) m]
    by (simp add: i)
  then show ?thesis
    using price_table_gold valid_range_sep(2) m by simp
qed

subsection \<open>C2: a zero or missing baseline\<close>

text \<open>
  C2 says that a zero or missing baseline leaves the whole series missing, never
  infinite. For a missing baseline it does. A zero baseline is divided by like any other
  number: a non-zero price over zero is an infinity, and stays one through
  \<open>- 1\<close> and \<open>* 100\<close>. In \<open>zero_table\<close> the column quoted at zero on the first day comes
  out as NaN, +inf, -inf.
\<close>

theorem undefined_baseline_counterexample:
  "price_table zero_table \<and> valid_range zero_table 0 2
   \<and> is_zero (Fin 0)
   \<and> performance_of (session zero_table) [0, 2] ''Zero''
       = Inr [((2021, 9, 27), NaN), ((2021, 9, 28), PInf), ((2021, 9, 29), NInf)]
   \<and> is_inf PInf \<and> \<not> isna PInf"
proof -
  have m: "(''Zero'', [Fin 0, Fin 5, Fin (- 5)]) \<in> set (columns zero_table)"
    by (simp add: zero_table_def)
  have "performance_of (session zero_table) [0, 2] ''Zero''
       = Inr [((2021, 9, 27), NaN), ((2021, 9, 28), PInf), ((2021, 9, 29), NInf)]"
    using performance_of_valid[OF price_table_zero valid_range_sep(4) m]
    by (simp add: zero_table_def sep_dates_def window_def rebase_zero_baseline mk_inf_def isna_def)
  then show ?thesis
    using price_table_zero valid_range_sep(4) by (simp add: isna_def)
qed

text \<open>
  C2, amended: for every valid range, the series of a column has one cell per date of
  the range; if the column's baseline is missing, every cell of its series is missing; if
  the baseline is zero, a cell is missing where the price is zero or missing and is an
  infinity, signed by the signs of price and baseline, where it is not; and every column
  of the table is rebased on its own baseline only, whatever the other columns hold.
\<close>

theorem undefined_baseline:
  assumes "price_table t" "valid_range t s e" "(c, xs) \<in> set (columns t)"
  shows "\<exists>ps. performance_of (session t) [s, e] c = Inr ps
           \<and> map fst ps = window s e (index t)
           \<and> (isna (xs ! nat s) \<longrightarrow> (\<forall>p\<in>set ps. isna (snd p)))
           \<and> (is_zero (xs ! nat s) \<longrightarrow>
                map snd ps = map (\<lambda>v. if isna v \<or> is_zero v then NaN
                                      else mk_inf (sign_bit v \<noteq> sign_bit (xs ! nat s)))
                               (window s e xs))
           \<and> (\<forall>(c', xs')\<in>set (columns t).
                performance_of (session t) [s, e] c' =
                  Inr (zip (window s e (index t)) (map (rebase (xs' ! nat s)) (window s e xs'))))"
proof -
  have b: "0 \<le> s" "s \<le> e" "nat e < length (index t)"
    using valid_rangeD[OF assms(2)] by auto
  have len: "length xs = length (index t)"
    using assms(1,3) by (auto simp: price_table_def intro: wf_frame_length)
  let ?ps = "zip (window s e (index t)) (map (rebase (xs ! nat s)) (window s e xs))"
  have lw: "length (window s e xs) = length (window s e (index t))"
    using b len by (simp add: length_window)
  have 1: "map fst ?ps = window s e (index t)" and 2: "map snd ?ps = map (rebase (xs ! nat s)) (window s e xs)"
    using lw by simp_all
  have 3: "isna (xs ! nat s) \<longrightarrow> (\<forall>p\<in>set ?ps. isna (snd p))"
  proof
    assume "isna (xs ! nat s)"
    then have "map snd ?ps = map (\<lambda>v. NaN) (window s e xs)"
      using 2 by (simp add: isna_def rebase_nan_baseline)
    then have "set (map snd ?ps) \<subseteq> {NaN}" by auto
    then show "\<forall>p\<in>set ?ps. isna (snd p)" by (auto simp: isna_def)
  qed
  have 4: "is_zero (xs ! nat s) \<longrightarrow>
                map snd ?ps = map (\<lambda>v. if isna v \<or> is_zero v then NaN
                                      else mk_inf (sign_bit v \<noteq> sign_bit (xs ! nat s)))
                               (window s e xs)"
    using 2 by (simp add: rebase_zero_baseline)
  have 5: "\<forall>(c', xs')\<in>set (columns t).
                performance_of (session t) [s, e] c' =
                  Inr (zip (window s e (index t)) (map (rebase (xs' ! nat s)) (window s e xs')))"
    using performance_of_valid[OF assms(1,2)] by auto
  show ?thesis
    using performance_of_valid[OF assms] 1 3 4 5 by blast
qed

theorem undefined_baseline_witness:
  "price_table late_table \<and> valid_range late_table 0 2
   \<and> (''Late'', [NaN, Fin 5, Fin 6]) \<in> set (columns late_table)
   \<and> isna ([NaN, Fin 5, Fin 6] ! nat 0)
   \<and> (\<exists>ps. performance_of (session late_table) [0, 2] ''Late'' = Inr ps \<and> map fst ps = sep_dates)
   \<and> performance_of (session late_table) [0, 2] ''Gold''
       = Inr [((2021, 9, 27), Fin 0), ((2021, 9, 28), Fin (10 + 5 / 2 ^ 49)),
              ((2021, 9, 29), Fin (- 10 + 1 / 2 ^ 49))]"
proof -
  have m: "(''Late'', [NaN, Fin 5, Fin 6]) \<in> set (columns late_table)"
    and g: "(''Gold'', [Fin 100, Fin 110, Fin 90]) \<in> set (columns late_table)"
    by (simp_all add: late_table_def)
  have n: "isna ([NaN, Fin 5, Fin 6] ! nat 0)"
    by (simp add: isna_def)
  have w: "window 0 2 (index late_table) = sep_dates"
    by (simp add: late_table_def sep_dates_def window_def)
  obtain ps where ps: "performance_of (session late_table) [0, 2] ''Late'' = Inr ps"
      "map fst ps = window 0 2 (index late_table)"
      "\<forall>(c', xs')\<in>set (columns late_table).
                performance_of (session late_table) [0, 2] c' =
                  Inr (zip (window 0 2 (index late_table)) (map (rebase (xs' ! nat 0)) (window 0 2 xs')))"
    using undefined_baseline[OF price_table_late valid_range_sep(3) m] by blast
  have "performance_of (session late_table) [0, 2] ''Gold'' =
          Inr (zip (window 0 2 (index late_table))
                 (map (rebase ([Fin 100, Fin 110, Fin 90] ! nat 0)) (window 0 2 [Fin 100, Fin 110, Fin 90])))"
    using ps(3) g by blast
  then have 3: "performance_of (session late_table) [0, 2] ''Gold''
       = Inr [((2021, 9, 27), Fin 0), ((2021, 9, 28), Fin (10 + 5 / 2 ^ 49)),
              ((2021, 9, 29), Fin (- 10 + 1 / 2 ^ 49))]"
    by (simp add: late_table_def sep_dates_def window_def rebase_100_110 rebase_100_90 rebase_self)
  have 1: "\<exists>ps. performance_of (session late_table) [0, 2] ''Late'' = Inr ps \<and> map fst ps = sep_dates"
    using ps(1,2) w by simp
  show ?thesis
    using price_table_late valid_range_sep(3) m n 1 3 by blast
qed

subsection \<open>C3: range containment\<close>




subsection \<open>C4: forward fill\<close>

text \<open>
  C4: after preparation, a cell that was missing in the download and has an earlier
  non-missing value in its column holds the nearest earlier such value; a cell without one
  stays missing; a cell that was present is unchanged. Earlier means in an earlier row of
  the download, the axis along which \<open>ffill\<close> runs; the rows of the prepared table are
  those of the download sorted by date, matched here by their dates. For a download in
  date order both orders agree and the prepared row is the row itself.
\<close>

theorem forward_fill:
  assumes "wf_frame raw" "distinct (index raw)" "(c, ys) \<in> set (columns (prepare raw))"
  shows "\<exists>xs. (c, xs) \<in> set (columns raw) \<and> length ys = length xs
           \<and> index (prepare raw) = sort (index raw)
           \<and> (\<forall>i j. i < length xs \<and> j < length ys \<and> index (prepare raw) ! j = index raw ! i \<longrightarrow>
                 (if \<not> isna (xs ! i) then ys ! j = xs ! i
                  else if \<exists>k<i. \<not> isna (xs ! k) then nearest_earlier xs i (ys ! j)
                  else isna (ys ! j)))"
proof -
  obtain xs where xs: "(c, xs) \<in> set (columns raw)"
    and ys: "ys = map snd (sort_key fst (zip (index raw) (ffill_from NaN xs)))"
    using prepare_column_origin[OF assms(3)] by blast
  have len: "length xs = length (index raw)"
    using assms(1) xs by (rule wf_frame_length)
  have lys: "length ys = length xs"
    using len by (simp add: ys length_ffill_from)
  have cell: "\<forall>i j. i < length xs \<and> j < length ys \<and> index (prepare raw) ! j = index raw ! i \<longrightarrow>
                 (if \<not> isna (xs ! i) then ys ! j = xs ! i
                  else if \<exists>k<i. \<not> isna (xs ! k) then nearest_earlier xs i (ys ! j)
                  else isna (ys ! j))"
  proof (intro allI impI)
    fix i j
    assume a: "i < length xs \<and> j < length ys \<and> index (prepare raw) ! j = index raw ! i"
    then have "ys ! j = ffill_from NaN xs ! i"
      using sort_column_cell[of "index raw" "ffill_from NaN xs" i j] assms(2) len lys
      by (simp add: ys index_prepare length_ffill_from)
    then show "if \<not> isna (xs ! i) then ys ! j = xs ! i
                  else if \<exists>k<i. \<not> isna (xs ! k) then nearest_earlier xs i (ys ! j)
                  else isna (ys ! j)"
      using ffill_from_cell[of i xs] a by simp
  qed
  show ?thesis using xs lys cell index_prepare by blast
qed

theorem forward_fill_witness:
  "wf_frame raw_table \<and> distinct (index raw_table)
   \<and> (''Late'', [NaN, Fin 5, Fin 5]) \<in> set (columns (prepare raw_table))
   \<and> nearest_earlier [NaN, Fin 5, NaN] 2 ([NaN, Fin 5, Fin 5] ! 2)
   \<and> isna ([NaN, Fin 5, Fin 5] ! 0)"
proof -
  have m: "(''Late'', [NaN, Fin 5, Fin 5]) \<in> set (columns (prepare raw_table))"
    by (simp add: prepare_raw_table)
  obtain xs where xs: "(''Late'', xs) \<in> set (columns raw_table)"
    and cell: "\<forall>i j. i < length xs \<and> j < length [NaN, Fin 5, Fin 5]
                  \<and> index (prepare raw_table) ! j = index raw_table ! i \<longrightarrow>
                 (if \<not> isna (xs ! i) then [NaN, Fin 5, Fin 5] ! j = xs ! i
                  else if \<exists>k<i. \<not> isna (xs ! k) then nearest_earlier xs i ([NaN, Fin 5, Fin 5] ! j)
                  else isna ([NaN, Fin 5, Fin 5] ! j))"
    using forward_fill[OF wf_raw_table m] by blast
  have x: "xs = [NaN, Fin 5, NaN]"
    using xs by (simp add: raw_table_def)
  have same: "index (prepare raw_table) = index raw_table"
    unfolding prepare_raw_table by (simp add: raw_table_def)
  have e: "\<exists>k<2. \<not> isna ([NaN, Fin 5, NaN] ! k)"
    by (intro exI[of _ 1]) (simp add: isna_def)
  have "nearest_earlier [NaN, Fin 5, NaN] 2 ([NaN, Fin 5, Fin 5] ! 2)"
    using cell[rule_format, of 2 2] e by (simp add: x same isna_def)
  moreover have "isna ([NaN, Fin 5, Fin 5] ! 0)"
    using cell[rule_format, of 0 0] by (simp add: x same isna_def)
  ultimately show ?thesis
    using wf_raw_table m by simp
qed

subsection \<open>C5: the full-range example\<close>

text \<open>
  C5 gives \<open>[0.0, 10.0, -10.0]\<close> for the prices 100, 110, 90 over the full range. In
  binary64 the quotient 110/100 is the number nearest to 1.1, which lies above 1.1, and
  the two further operations keep the excess: the series is not the three numbers of the
  claim.
\<close>

theorem gold_full_range_counterexample:
  "performance_of (session gold_table) [0, 2] ''Gold''
     \<noteq> Inr [((2021, 9, 27), Fin 0), ((2021, 9, 28), Fin 10), ((2021, 9, 29), Fin (- 10))]"
  by (simp add: gold_performance)

text \<open>
  C5, amended: for the dates 2021-09-27, 2021-09-28, 2021-09-29 and the column Gold
  with the prices 100, 110, 90, the full range \<open>(0, 2)\<close> yields 0.0, \<open>10 + 5 * 2^-49\<close>
  and \<open>-10 + 2^-49\<close> (printed 10.000000000000009 and -9.999999999999998): 0.0 exactly at
  the baseline, and values within \<open>10^-14\<close> of 10 and -10.
\<close>

theorem gold_full_range:
  "performance_of (session gold_table) [0, 2] ''Gold''
     = Inr [((2021, 9, 27), Fin 0), ((2021, 9, 28), Fin (10 + 5 / 2 ^ 49)),
            ((2021, 9, 29), Fin (- 10 + 1 / 2 ^ 49))]
   \<and> \<bar>(10 + 5 / 2 ^ 49) - (10::rat)\<bar> < 1 / 10 ^ 14
   \<and> \<bar>(- 10 + 1 / 2 ^ 49) - (- 10::rat)\<bar> < 1 / 10 ^ 14"
  by (simp add: gold_performance)

subsection \<open>C6: no column is empty after preparation\<close>

text \<open>
  C6: after preparation every remaining column has at least one non-missing value; the
  columns that remain are, in order, those of the download with a non-missing value, and
  the columns missing in every row are dropped.
\<close>

theorem no_empty_column:
  assumes "wf_frame raw"
  shows "(\<forall>(c, ys)\<in>set (columns (prepare raw)). \<exists>y\<in>set ys. \<not> isna y)
       \<and> map fst (columns (prepare raw))
           = map fst (filter (\<lambda>(c, xs). \<exists>x\<in>set xs. \<not> isna x) (columns raw))"
proof
  show "\<forall>(c, ys)\<in>set (columns (prepare raw)). \<exists>y\<in>set ys. \<not> isna y"
  proof (clarify)
    fix c ys assume m: "(c, ys) \<in> set (columns (prepare raw))"
    then obtain xs where xs: "(c, xs) \<in> set (columns raw)"
      and ys: "ys = map snd (sort_key fst (zip (index raw) (ffill_from NaN xs)))"
      and ex: "list_ex (\<lambda>x. \<not> isna x) (ffill_from NaN xs)"
      using prepare_column_origin by blast
    have len: "length (ffill_from NaN xs) = length (index raw)"
      using assms xs by (simp add: length_ffill_from wf_frame_length)
    have "set ys = snd ` set (zip (index raw) (ffill_from NaN xs))"
      by (simp add: ys)
    also have "\<dots> = set (map snd (zip (index raw) (ffill_from NaN xs)))"
      by simp
    also have "\<dots> = set (ffill_from NaN xs)"
      using len by simp
    finally show "\<exists>y\<in>set ys. \<not> isna y"
      using ex by (auto simp: list_ex_iff)
  qed
next
  have "map fst (columns (prepare raw))
          = map fst (filter (\<lambda>(c, xs). list_ex (\<lambda>x. \<not> isna x) (ffill_from NaN xs)) (columns raw))"
    unfolding columns_prepare by (rule filter_map_names)
  then show "map fst (columns (prepare raw))
           = map fst (filter (\<lambda>(c, xs). \<exists>x\<in>set xs. \<not> isna x) (columns raw))"
    by (simp add: list_ex_iff ffill_from_any_present[unfolded list_ex_iff])
qed

theorem no_empty_column_witness:
  "wf_frame raw_table \<and> map fst (columns raw_table) = [''Gold'', ''Void'', ''Late'']
   \<and> map fst (columns (prepare raw_table)) = [''Gold'', ''Late'']"
proof -
  have "map fst (columns (prepare raw_table))
          = map fst (filter (\<lambda>(c, xs). \<exists>x\<in>set xs. \<not> isna x) (columns raw_table))"
    using no_empty_column[OF wf_raw_table(1)] by blast
  then have "map fst (columns (prepare raw_table)) = [''Gold'', ''Late'']"
    by (simp add: raw_table_def isna_def)
  then show ?thesis
    using wf_raw_table(1) by (simp add: raw_table_def)
qed

subsection \<open>C8: the table is never written\<close>

text \<open>
  C8: a render leaves the globals as they were, the price table with every date and
  every cell included, for every selected range, valid or not, and so does every sequence
  of renders.
\<close>

theorem table_unchanged:
  "snd (update_graph g r) = g \<and> snd (run_events g rs) = g
   \<and> data (snd (update_graph g r)) = data g \<and> date_list (snd (update_graph g r)) = date_list g"
  by (simp add: update_graph_state run_events_state)

theorem table_unchanged_witness:
  "snd (update_graph (session gold_table) [0, 2]) = session gold_table
   \<and> snd (run_events (session gold_table) [[0, 2], [1, 2], [2, 1], [7], []]) = session gold_table"
  using table_unchanged[of "session gold_table" "[0, 2]" "[[0, 2], [1, 2], [2, 1], [7], []]"]
  by simp

subsection \<open>C9: the display label\<close>

text \<open>
  C9: for every valid range the label reads the date at \<open>start_index\<close>, two spaces, the
  arrow, two spaces, the date at \<open>end_index\<close>, each date as \<open>YYYY-MM-DD\<close>.
\<close>

theorem display_label:
  assumes "price_table t" "valid_range t s e"
    and "valid_date (index t ! nat s)" "valid_date (index t ! nat e)"
  shows "label_of (session t) [s, e] =
           Inr (yyyy_mm_dd (index t ! nat s) @ ''  '' @ arrow @ ''  '' @ yyyy_mm_dd (index t ! nat e))"
proof -
  obtain fig where "fst (update_graph (session t) [s, e]) =
            Inr (fig, Span [Span_text (strftime_Ymd (index t ! nat s)) label_style,
                            Span_text (''  '' @ arrow @ ''  '') [],
                            Span_text (strftime_Ymd (index t ! nat e)) label_style])"
    using update_graph_valid[OF assms(1,2)] by blast
  then show ?thesis
    using assms(3,4) by (simp add: label_of_def strftime_yyyy_mm_dd)
qed

theorem display_label_witness:
  "price_table gold_table \<and> valid_range gold_table 1 2
   \<and> valid_date (index gold_table ! nat 1) \<and> valid_date (index gold_table ! nat 2)
   \<and> label_of (session gold_table) [1, 2] = Inr (''2021-09-28  '' @ arrow @ ''  2021-09-29'')"
proof -
  have i: "index gold_table ! nat 1 = (2021, 9, 28)" "index gold_table ! nat 2 = (2021, 9, 29)"
    by (simp_all add: gold_table_def sep_dates_def)
  have v: "valid_date (index gold_table ! nat 1)" "valid_date (index gold_table ! nat 2)"
    unfolding i by (simp_all add: valid_date_def)
  have "label_of (session gold_table) [1, 2] = Inr (''2021-09-28  '' @ arrow @ ''  2021-09-29'')"
    using display_label[OF price_table_gold valid_range_sep(2) v]
    unfolding i sep_dates_fmt by simp
  then show ?thesis
    using price_table_gold valid_range_sep(2) v by simp
qed

subsection \<open>C10: scale invariance\<close>

text \<open>
  C10 says that multiplying every price of a column by a positive constant leaves its
  performance series unchanged. The scaled table holds binary64 numbers, the rounded
  products, and the quotient of two rounded products need not round like the quotient of
  the prices: with the prices 389 and 668 and the factor nearest to 0.3 the second cell
  of the series changes in its last bit.
\<close>

theorem scale_invariance_counterexample:
  "price_table ab_table \<and> valid_range ab_table 0 1
   \<and> is_binary64 (Fin 389) \<and> is_binary64 (Fin 668) \<and> is_binary64 (Fin c03)
   \<and> finite_nonzero (Fin 389) \<and> 0 < c03
   \<and> columns (scale_column c03 ''A'' ab_table)
       = [(''A'', [Fin (2053008111383347 / 2 ^ 44), Fin (7050948166601933 / 2 ^ 45)])]
   \<and> performance_of (session (scale_column c03 ''A'' ab_table)) [0, 1] ''A''
       \<noteq> performance_of (session ab_table) [0, 1] ''A''"
proof -
  have c: "columns (scale_column c03 ''A'' ab_table)
       = [(''A'', [Fin (2053008111383347 / 2 ^ 44), Fin (7050948166601933 / 2 ^ 45)])]"
    by (simp add: scale_column_def ab_table_def ab_products)
  have p: "0 < c03" by (simp add: c03_def)
  have d: "performance_of (session (scale_column c03 ''A'' ab_table)) [0, 1] ''A''
       \<noteq> performance_of (session ab_table) [0, 1] ''A''"
    by (simp add: ab_performance ab_scaled_performance)
  show ?thesis
    using ab_facts(1,2) c03_binary64 c p d by simp
qed

text \<open>
  C10, amended: for every valid range, every column with a finite non-zero baseline and
  every positive constant whose products with the prices of the column are exact in
  binary64 (a power of two short of overflow and underflow, for one), multiplying every
  price of that column by the constant leaves the performance series of the column
  unchanged.
\<close>

theorem scale_invariance:
  assumes "price_table t" "valid_range t s e" "(c, xs) \<in> set (columns t)"
    and "finite_nonzero (xs ! nat s)" "0 < k"
    and "\<forall>x\<in>set xs. exact_product k x"
  shows "performance_of (session (scale_column k c t)) [s, e] c = performance_of (session t) [s, e] c"
proof -
  have b: "0 \<le> s" "s \<le> e" "nat e < length (index t)"
    using valid_rangeD[OF assms(2)] by auto
  have len: "length xs = length (index t)"
    using assms(1,3) by (auto simp: price_table_def intro: wf_frame_length)
  have mem: "(c, map (fmul (Fin k)) xs) \<in> set (columns (scale_column k c t))"
    using assms(3) by (force simp: scale_column_def)
  have ns: "nat s < length xs" using b len by linarith
  then have bl: "map (fmul (Fin k)) xs ! nat s = fmul (Fin k) (xs ! nat s)" by simp
  have eb: "exact_product k (xs ! nat s)"
    using assms(6) ns by simp
  have ew: "\<forall>v\<in>set (window s e xs). exact_product k v"
    using assms(6) by (auto simp: window_def dest: in_set_takeD in_set_dropD)
  have cells: "map (rebase (fmul (Fin k) (xs ! nat s))) (map (fmul (Fin k)) (window s e xs))
                 = map (rebase (xs ! nat s)) (window s e xs)"
    using ew eb assms(5) by (simp add: rebase_exact_product)
  have "performance_of (session (scale_column k c t)) [s, e] c =
          Inr (zip (window s e (index (scale_column k c t)))
                (map (rebase (map (fmul (Fin k)) xs ! nat s)) (window s e (map (fmul (Fin k)) xs))))"
    using assms(1,2) mem
    by (intro performance_of_valid price_table_scale_column) (simp_all add: valid_range_scale_column)
  also have "\<dots> = Inr (zip (window s e (index t))
                (map (rebase (fmul (Fin k) (xs ! nat s))) (map (fmul (Fin k)) (window s e xs))))"
    by (simp only: bl window_map) (simp add: scale_column_def)
  also have "\<dots> = Inr (zip (window s e (index t)) (map (rebase (xs ! nat s)) (window s e xs)))"
    by (simp only: cells)
  also have "\<dots> = performance_of (session t) [s, e] c"
    using performance_of_valid[OF assms(1,2,3)] by simp
  finally show ?thesis .
qed

theorem scale_invariance_witness:
  "price_table gold_table \<and> valid_range gold_table 0 2
   \<and> (''Gold'', [Fin 100, Fin 110, Fin 90]) \<in> set (columns gold_table)
   \<and> finite_nonzero ([Fin 100, Fin 110, Fin 90] ! nat 0) \<and> (0::rat) < 2
   \<and> exact_product 2 (Fin 100) \<and> exact_product 2 (Fin 110) \<and> exact_product 2 (Fin 90)
   \<and> performance_of (session (scale_column 2 ''Gold'' gold_table)) [0, 2] ''Gold''
       = performance_of (session gold_table) [0, 2] ''Gold''"
proof -
  have m: "(''Gold'', [Fin 100, Fin 110, Fin 90]) \<in> set (columns gold_table)"
    by (simp add: gold_table_def)
  have f: "finite_nonzero ([Fin 100, Fin 110, Fin 90] ! nat 0)" and k: "(0::rat) < 2"
    by simp_all
  have x: "\<forall>x\<in>set [Fin 100, Fin 110, Fin 90]. exact_product 2 x"
    using gold_doubled by simp
  show ?thesis
    using price_table_gold valid_range_sep(1) m f k gold_doubled
      scale_invariance[OF price_table_gold valid_range_sep(1) m f k x]
    by simp
qed

end
